theory Spec2Isabelle
  imports Main "HOL-Library.Sublist"
begin

section \<open>Strings\<close>

text \<open>
  The strings of \<^verbatim>\<open>src/src/App.tsx\<close> are modelled as \<^typ>\<open>string\<close>; a character
  stands for the code point of the same number (U+0000 to U+00FF). The library
  methods the translation pipeline calls on strings are written out for that range.
\<close>

definition isWhiteSpace :: "char \<Rightarrow> bool" where
  \<comment> \<open>the white space and line terminators that \<^verbatim>\<open>trim\<close> strips: TAB, LF, VT, FF, CR, SP, NBSP\<close>
  "isWhiteSpace c =
     (c \<in> set [CHR 0x09, CHR 0x0A, CHR 0x0B, CHR 0x0C, CHR 0x0D, CHR 0x20, CHR 0xA0])"

definition trim :: "string \<Rightarrow> string" where
  "trim s = rev (dropWhile isWhiteSpace (rev (dropWhile isWhiteSpace s)))"

definition toLowerChar :: "char \<Rightarrow> char" where
  "toLowerChar c =
     (let n = (of_char c :: nat)
      in if (65 \<le> n \<and> n \<le> 90) \<or> (192 \<le> n \<and> n \<le> 222 \<and> n \<noteq> 215)
         then char_of (n + 32) else c)"

definition toLowerCase :: "string \<Rightarrow> string" where
  "toLowerCase s = map toLowerChar s"

fun includes_str :: "string \<Rightarrow> string \<Rightarrow> bool" where
  "includes_str [] sub = (sub = [])"
| "includes_str (c # cs) sub = (prefix sub (c # cs) \<or> includes_str cs sub)"

fun split_str :: "char \<Rightarrow> string \<Rightarrow> string list" where
  "split_str sep [] = [[]]"
| "split_str sep (c # cs) =
     (if c = sep then [] # split_str sep cs
      else (case split_str sep cs of
              [] \<Rightarrow> [[c]]
            | l # ls \<Rightarrow> (c # l) # ls))"

fun join_str :: "char \<Rightarrow> string list \<Rightarrow> string" where
  "join_str sep [] = []"
| "join_str sep [l] = l"
| "join_str sep (l # ls) = l @ sep # join_str sep ls"

text \<open>The first line of a text, and the text after its first newline (empty if it has none).\<close>

definition first_line :: "string \<Rightarrow> string" where
  "first_line t = takeWhile (\<lambda>c. c \<noteq> CHR 0x0A) t"

definition after_first_newline :: "string \<Rightarrow> string" where
  "after_first_newline t = tl (dropWhile (\<lambda>c. c \<noteq> CHR 0x0A) t)"

section \<open>The stream decoder: \<^verbatim>\<open>translateTextStream\<close>\<close>

datatype lang = zh | en

text \<open>
  The interface \<^verbatim>\<open>TranslationResult\<close> declares three fields. The objects the generator
  yields are written with two of them; a field an object does not have reads as
  \<^verbatim>\<open>undefined\<close>, which is \<^term>\<open>None\<close> here.
\<close>

record TranslationResult =
  detectedLanguage :: lang
  translation :: string
  isComplete :: "bool option"

text \<open>The two local variables of the generator; \<^verbatim>\<open>detectedLang = ''\<close> is \<^term>\<open>None\<close>.\<close>

record gen_state =
  detectedLang :: "lang option"
  fullText :: string

definition gen_init :: gen_state where
  "gen_init = \<lparr>detectedLang = None, fullText = []\<rparr>"

text \<open>
  One iteration of the \<^verbatim>\<open>for await\<close> loop (lines 55 to 69). The argument is
  \<^verbatim>\<open>chunk.text\<close>, which is a string or \<^verbatim>\<open>undefined\<close>; the result is the updated
  locals and the object yielded in this iteration, if any.
\<close>

definition on_chunk :: "string option \<Rightarrow> gen_state \<Rightarrow> gen_state \<times> TranslationResult option" where
  "on_chunk chunkText g =
     (case chunkText of
        None \<Rightarrow> (g, None)
      | Some t \<Rightarrow>
          if t = [] then (g, None)
          else (case detectedLang g of
                  None \<Rightarrow>
                    (let lines = split_str CHR 0x0A t;
                         d = (if includes_str (toLowerCase (trim (hd lines))) ''zh'' then zh else en);
                         remaining = join_str CHR 0x0A (tl lines);
                         ft = fullText g @ remaining
                     in (\<lparr>detectedLang = Some d, fullText = ft\<rparr>,
                         Some \<lparr>detectedLanguage = d, translation = ft, isComplete = None\<rparr>))
                | Some d \<Rightarrow>
                    (let ft = fullText g @ t
                     in (g\<lparr>fullText := ft\<rparr>,
                         Some \<lparr>detectedLanguage = d, translation = ft, isComplete = None\<rparr>))))"

text \<open>
  What the remote service does with one call of \<^verbatim>\<open>generateContentStream\<close>: the call
  throws, or it resolves to a stream of chunks that ends normally or with an error.
\<close>

datatype stream_end = EndOfStream | StreamError

datatype remote = Rejects | Stream "string option list" stream_end

datatype exn = RemoteError

text \<open>The loop over the stream: the objects yielded, and how the loop is left.\<close>

fun for_await :: "string option list \<Rightarrow> stream_end \<Rightarrow> gen_state \<Rightarrow> TranslationResult list \<times> (exn + unit)" where
  "for_await [] EndOfStream g = ([], Inr ())"
| "for_await [] StreamError g = ([], Inl RemoteError)"
| "for_await (c # cs) e g =
     (case on_chunk c g of
        (g', y) \<Rightarrow>
          (case for_await cs e g' of
             (ys, r) \<Rightarrow> ((case y of None \<Rightarrow> ys | Some v \<Rightarrow> v # ys), r)))"

text \<open>The body of the \<^verbatim>\<open>try\<close> block (lines 32 to 69).\<close>

definition try_block :: "remote \<Rightarrow> TranslationResult list \<times> (exn + unit)" where
  "try_block r =
     (case r of
        Rejects \<Rightarrow> ([], Inl RemoteError)
      | Stream chunks e \<Rightarrow> for_await chunks e gen_init)"

text \<open>
  A complete run of the generator: the objects it yields, the texts it sends to the
  remote service, the number of lines it writes with \<^verbatim>\<open>console.error\<close>, and whether
  it returns (\<^term>\<open>Inr ()\<close>) or throws to its consumer.
\<close>

record gen_run =
  yields :: "TranslationResult list"
  requested :: "string list"
  consoleErrors :: nat
  completion :: "exn + unit"

definition translateTextStream :: "string \<Rightarrow> remote \<Rightarrow> gen_run" where
  "translateTextStream text r =
     (if trim text = [] then
        \<lparr>yields = [], requested = [], consoleErrors = 0, completion = Inr ()\<rparr>
      else (case try_block r of
              (ys, Inl error) \<Rightarrow>
                \<lparr>yields = ys, requested = [text], consoleErrors = 1, completion = Inr ()\<rparr>
            | (ys, Inr u) \<Rightarrow>
                \<lparr>yields = ys, requested = [text], consoleErrors = 0, completion = Inr ()\<rparr>))"

subsection \<open>Notions for stating properties of the decoder\<close>

text \<open>The non-empty chunk texts of a stream, in arrival order.\<close>

fun texts :: "string option list \<Rightarrow> string list" where
  "texts [] = []"
| "texts (None # cs) = texts cs"
| "texts (Some t # cs) = (if t = [] then texts cs else t # texts cs)"

text \<open>The buffers obtained by appending the given texts, one after the other, to a buffer.\<close>

fun accumulate :: "string \<Rightarrow> string list \<Rightarrow> string list" where
  "accumulate acc [] = []"
| "accumulate acc (t # ts) = (acc @ t) # accumulate (acc @ t) ts"

text \<open>Every text of the list is a prefix of the next one.\<close>

fun prefix_growing :: "string list \<Rightarrow> bool" where
  "prefix_growing (a # b # rest) = (prefix a b \<and> prefix_growing (b # rest))"
| "prefix_growing rest = True"

section \<open>The component state of \<^verbatim>\<open>App\<close>\<close>

text \<open>
  A call of \<^verbatim>\<open>translateTextStream\<close> in flight is a suspended generator: it waits for
  the remote call to resolve, or for the next chunk of the stream, or it is finished.
\<close>

datatype phase = AwaitingCall | Streaming | Done

record request =
  requestText :: string
  phase :: phase
  locals :: gen_state

text \<open>
  The \<^verbatim>\<open>audio\<close> element behind \<^verbatim>\<open>audioRef\<close>: its source, the side whose flag its
  \<^verbatim>\<open>onended\<close> handler resets (\<^term>\<open>True\<close> for the source side), and the number of
  calls of \<^verbatim>\<open>play\<close>.
\<close>

record audio_element =
  src :: string
  onended :: "bool option"
  plays :: nat

text \<open>
  The state hooks and refs of the component (the hook \<^verbatim>\<open>translation\<close> is the field
  \<open>translation_state\<close>, to keep it apart from the field of the result), followed by
  what its environment holds: the pending timeouts (identifier, delay in milliseconds, the input captured by the
  callback), the \<^verbatim>\<open>aborted\<close> flag of every \<^verbatim>\<open>AbortController\<close> created, the generators
  started, the texts sent to the remote translation call, the calls of
  \<^verbatim>\<open>setTranslation\<close> in order (with the request whose loop made the call, if one did),
  the lines written with \<^verbatim>\<open>console.error\<close>, the remote speech-synthesis calls (text
  and voice) and the utterances given to the local speech synthesis (text and
  locale).
\<close>

record app_state =
  input :: string
  translation_state :: "TranslationResult option"
  isTranslating :: bool
  isSpeakingSource :: bool
  isSpeakingTranslation :: bool
  debounceTimerRef :: "nat option"
  abortControllerRef :: "nat option"
  audioRef :: "audio_element option"
  timers :: "(nat \<times> nat \<times> string) list"
  nextTimer :: nat
  controllers :: "bool list"
  requests :: "request list"
  remoteCalls :: "string list"
  published :: "(nat option \<times> TranslationResult option) list"
  console :: nat
  ttsCalls :: "(string \<times> string) list"
  utterances :: "(string \<times> string) list"

definition app_init :: app_state where
  "app_init =
     \<lparr>input = [], translation_state = None, isTranslating = False,
      isSpeakingSource = False, isSpeakingTranslation = False,
      debounceTimerRef = None, abortControllerRef = None,
      audioRef = Some \<lparr>src = [], onended = None, plays = 0\<rparr>,
      timers = [], nextTimer = 1, controllers = [], requests = [],
      remoteCalls = [], published = [], console = 0, ttsCalls = [], utterances = []\<rparr>"

definition setTranslation :: "nat option \<Rightarrow> TranslationResult option \<Rightarrow> app_state \<Rightarrow> app_state" where
  "setTranslation origin v st =
     st\<lparr>translation_state := v, published := published st @ [(origin, v)]\<rparr>"

definition setIsTranslating :: "bool \<Rightarrow> app_state \<Rightarrow> app_state" where
  "setIsTranslating b st = st\<lparr>isTranslating := b\<rparr>"

section \<open>The request coordinator: \<^verbatim>\<open>performTranslation\<close>\<close>

text \<open>
  Calling the generator's \<^verbatim>\<open>next\<close> for the first time runs it to its first
  \<^verbatim>\<open>await\<close>: blank text ends it at once (line 29); otherwise the remote call is issued
  and the generator waits for it (line 43).
\<close>

definition start_stream :: "string \<Rightarrow> app_state \<Rightarrow> app_state" where
  "start_stream text st =
     (if trim text = [] then
        setIsTranslating False
          (st\<lparr>requests := requests st @ [\<lparr>requestText = text, phase = Done, locals = gen_init\<rparr>]\<rparr>)
      else
        st\<lparr>requests := requests st @ [\<lparr>requestText = text, phase = AwaitingCall, locals = gen_init\<rparr>],
           remoteCalls := remoteCalls st @ [text]\<rparr>)"

text \<open>
  \<^verbatim>\<open>performTranslation\<close> up to its first suspension (lines 162 to 179). The rest of its
  body runs when the remote service answers, in \<open>step\<close> below.
\<close>

definition performTranslation :: "string \<Rightarrow> app_state \<Rightarrow> app_state" where
  "performTranslation text st =
     (if trim text = [] then setIsTranslating False (setTranslation None None st)
      else
        (let st1 = setIsTranslating True st;
             st2 = (case abortControllerRef st1 of
                      None \<Rightarrow> st1
                    | Some c \<Rightarrow> st1\<lparr>controllers := (controllers st1)[c := True]\<rparr>);
             st3 = st2\<lparr>abortControllerRef := Some (length (controllers st2)),
                       controllers := controllers st2 @ [False]\<rparr>
         in start_stream text st3))"

section \<open>The debouncer: the effect on \<^verbatim>\<open>input\<close>\<close>

definition clearTimeout :: "nat \<Rightarrow> app_state \<Rightarrow> app_state" where
  "clearTimeout t st = st\<lparr>timers := filter (\<lambda>(i, d, x). i \<noteq> t) (timers st)\<rparr>"

definition setTimeout :: "nat \<Rightarrow> string \<Rightarrow> app_state \<Rightarrow> nat \<times> app_state" where
  "setTimeout delay x st =
     (nextTimer st,
      st\<lparr>timers := timers st @ [(nextTimer st, delay, x)], nextTimer := Suc (nextTimer st)\<rparr>)"

text \<open>The function the effect returns (lines 204 to 206).\<close>

definition effect_cleanup :: "app_state \<Rightarrow> app_state" where
  "effect_cleanup st =
     (case debounceTimerRef st of None \<Rightarrow> st | Some t \<Rightarrow> clearTimeout t st)"

text \<open>The effect itself (lines 190 to 202).\<close>

definition effect_body :: "app_state \<Rightarrow> app_state" where
  "effect_body st =
     (let st1 = (case debounceTimerRef st of None \<Rightarrow> st | Some t \<Rightarrow> clearTimeout t st)
      in if input st1 \<noteq> [] then
           (let delay = (if length (input st1) < 5 then 200 else 400);
                (t, st2) = setTimeout delay (input st1) st1
            in st2\<lparr>debounceTimerRef := Some t\<rparr>)
         else setTranslation None None st1)"

text \<open>
  A change of \<^verbatim>\<open>input\<close> renders the component again: the previous run of the effect
  is cleaned up, then the effect runs with the new input.
\<close>

definition input_changed :: "string \<Rightarrow> app_state \<Rightarrow> app_state" where
  "input_changed s st = effect_body (effect_cleanup (st\<lparr>input := s\<rparr>))"

text \<open>The state after the first render: the effect has run once, on the empty input.\<close>

definition mounted :: app_state where
  "mounted = effect_body app_init"

section \<open>The event loop\<close>

text \<open>
  The component runs on a single event loop; between two suspension points its code
  runs without interruption. An event is one task of the loop: the input changes, a
  timeout fires, or the remote service answers the request with the given index (the
  call resolves or throws, a chunk arrives, the stream ends or fails). An event that
  does not fit the state of its request, or names a timeout that is not pending, does
  nothing.
\<close>

datatype event =
    InputChange string
  | TimerFires nat
  | CallResolves nat
  | CallRejects nat
  | ChunkArrives nat "string option"
  | StreamEnds nat
  | StreamFails nat

definition in_phase :: "nat \<Rightarrow> phase \<Rightarrow> app_state \<Rightarrow> bool" where
  "in_phase i p st = (i < length (requests st) \<and> phase (requests st ! i) = p)"

definition set_phase :: "nat \<Rightarrow> phase \<Rightarrow> app_state \<Rightarrow> app_state" where
  "set_phase i p st = st\<lparr>requests := (requests st)[i := (requests st ! i)\<lparr>phase := p\<rparr>]\<rparr>"

definition console_error :: "app_state \<Rightarrow> app_state" where
  "console_error st = st\<lparr>console := Suc (console st)\<rparr>"

fun step :: "event \<Rightarrow> app_state \<Rightarrow> app_state" where
  "step (InputChange s) st = (if s = input st then st else input_changed s st)"
| "step (TimerFires t) st =
     (case find (\<lambda>(i, d, x). i = t) (timers st) of
        None \<Rightarrow> st
      | Some (i, d, x) \<Rightarrow> performTranslation x (clearTimeout t st))"
| "step (CallResolves i) st =
     (if in_phase i AwaitingCall st then set_phase i Streaming st else st)"
| "step (CallRejects i) st =
     (if in_phase i AwaitingCall st
      then setIsTranslating False (console_error (set_phase i Done st)) else st)"
| "step (ChunkArrives i c) st =
     (if in_phase i Streaming st then
        (case on_chunk c (locals (requests st ! i)) of
           (g, y) \<Rightarrow>
             (let st1 = st\<lparr>requests := (requests st)[i := (requests st ! i)\<lparr>locals := g\<rparr>]\<rparr>
              in case y of None \<Rightarrow> st1 | Some v \<Rightarrow> setTranslation (Some i) (Some v) st1))
      else st)"
| "step (StreamEnds i) st =
     (if in_phase i Streaming st then setIsTranslating False (set_phase i Done st) else st)"
| "step (StreamFails i) st =
     (if in_phase i Streaming st
      then setIsTranslating False (console_error (set_phase i Done st)) else st)"

fun run :: "event list \<Rightarrow> app_state \<Rightarrow> app_state" where
  "run [] st = st"
| "run (e # es) st = run es (step e st)"

section \<open>Speech output: \<^verbatim>\<open>speak\<close>\<close>

text \<open>
  What the remote speech-synthesis call does: it throws, or it resolves to a response
  whose nested audio payload is a string or is missing.
\<close>

datatype tts_response = TtsRejects | TtsResponse "string option"

definition setSpeaking :: "bool \<Rightarrow> bool \<Rightarrow> app_state \<Rightarrow> app_state" where
  "setSpeaking isSource b st =
     (if isSource then st\<lparr>isSpeakingSource := b\<rparr> else st\<lparr>isSpeakingTranslation := b\<rparr>)"

definition speak_local :: "string \<Rightarrow> lang \<Rightarrow> app_state \<Rightarrow> app_state" where
  "speak_local text l st =
     st\<lparr>utterances := utterances st @ [(text, if l = zh then ''zh-CN'' else ''en-US'')]\<rparr>"

text \<open>
  One call of \<^verbatim>\<open>speak\<close> (lines 217 to 262), given the answer of the remote call it may
  make, up to the point where playback has been started.
\<close>

definition speak :: "string \<Rightarrow> lang \<Rightarrow> bool \<Rightarrow> tts_response \<Rightarrow> app_state \<Rightarrow> app_state" where
  "speak text l isSource tts st =
     (if text = [] then st
      else
        (let st1 = setSpeaking isSource True st
         in if \<not> isSource \<and> length text < 500 then
              (let voiceName = (if l = en then ''Puck'' else ''Kore'');
                   st2 = st1\<lparr>ttsCalls := ttsCalls st1 @ [(text, voiceName)]\<rparr>
               in case tts of
                    TtsRejects \<Rightarrow> setSpeaking isSource False (console_error st2)
                  | TtsResponse None \<Rightarrow> speak_local text l st2
                  | TtsResponse (Some base64Audio) \<Rightarrow>
                      if base64Audio \<noteq> [] then
                        (case audioRef st2 of
                           None \<Rightarrow> speak_local text l st2
                         | Some a \<Rightarrow>
                             st2\<lparr>audioRef :=
                                  Some (a\<lparr>src := ''data:audio/mp3;base64,'' @ base64Audio,
                                          onended := Some isSource,
                                          plays := Suc (plays a)\<rparr>)\<rparr>)
                      else speak_local text l st2)
            else speak_local text l st1))"

section \<open>Notions for stating properties of the component\<close>

text \<open>
  The events by which the remote service plays out one answer for the request with
  the given index.
\<close>

definition events_of :: "nat \<Rightarrow> remote \<Rightarrow> event list" where
  "events_of i r =
     (case r of
        Rejects \<Rightarrow> [CallRejects i]
      | Stream cs e \<Rightarrow>
          CallResolves i # map (ChunkArrives i) cs
            @ [case e of EndOfStream \<Rightarrow> StreamEnds i | StreamError \<Rightarrow> StreamFails i])"

text \<open>
  At most one timeout is pending, and it is the one \<^verbatim>\<open>debounceTimerRef\<close> holds.
\<close>

definition one_timer :: "app_state \<Rightarrow> bool" where
  "one_timer st =
     (case timers st of
        [] \<Rightarrow> True
      | [(i, d, x)] \<Rightarrow> debounceTimerRef st = Some i
      | _ \<Rightarrow> False)"

text \<open>
  The scenario of the specification: the user enters \<^verbatim>\<open>hello\<close>, the timeout fires,
  the remote call resolves, the stream delivers three chunks and ends.
\<close>

definition hello_scenario :: "event list" where
  "hello_scenario =
     [InputChange ''hello'', TimerFires 1, CallResolves 0,
      ChunkArrives 0 (Some ''en\<newline>''), ChunkArrives 0 (Some ''Bon''),
      ChunkArrives 0 (Some ''jour''), StreamEnds 0]"

text \<open>
  A request superseded while its stream is being consumed: the request for \<^verbatim>\<open>a\<close> has
  published one result when the input changes to \<^verbatim>\<open>ab\<close> and the second request is
  submitted and publishes its first result.
\<close>

definition superseding_scenario :: "event list" where
  "superseding_scenario =
     [InputChange ''a'', TimerFires 1, CallResolves 0,
      ChunkArrives 0 (Some ''en\<newline>Old''),
      InputChange ''ab'', TimerFires 2, CallResolves 1,
      ChunkArrives 1 (Some ''en\<newline>New'')]"

text \<open>
  A first request publishes a result and ends; a second request's stream delivers one
  empty chunk and ends normally.
\<close>

definition empty_stream_scenario :: "event list" where
  "empty_stream_scenario =
     [InputChange ''hi'', TimerFires 1, CallResolves 0,
      ChunkArrives 0 (Some ''en\<newline>Salut''), StreamEnds 0,
      InputChange ''hip'', TimerFires 2, CallResolves 1,
      ChunkArrives 1 (Some []), StreamEnds 1]"

section \<open>Facts about the string functions\<close>

lemma includes_str_sublist: "includes_str s sub = sublist sub s"
  by (induction s) (simp_all add: sublist_Cons_right)

lemma split_str_not_Nil: "split_str sep s \<noteq> []"
  by (induction s) (simp_all split: list.splits)

lemma hd_split_str: "hd (split_str sep s) = takeWhile (\<lambda>c. c \<noteq> sep) s"
  using split_str_not_Nil [of sep]
  by (induction s) (auto split: list.splits)

lemma join_split_str: "join_str sep (split_str sep s) = s"
proof (induction s)
  case Nil
  show ?case by simp
next
  case (Cons c cs)
  obtain l ls where sp: "split_str sep cs = l # ls"
    using split_str_not_Nil [of sep cs] by (cases "split_str sep cs") auto
  show ?case
  proof (cases "c = sep")
    case True
    with Cons sp show ?thesis by simp
  next
    case False
    with Cons sp show ?thesis by (cases ls) auto
  qed
qed

lemma join_tl_split_str:
  "join_str sep (tl (split_str sep s)) = tl (dropWhile (\<lambda>c. c \<noteq> sep) s)"
proof (induction s)
  case Nil
  show ?case by simp
next
  case (Cons c cs)
  obtain l ls where sp: "split_str sep cs = l # ls"
    using split_str_not_Nil [of sep cs] by (cases "split_str sep cs") auto
  show ?case
  proof (cases "c = sep")
    case True
    then show ?thesis by (simp add: join_split_str)
  next
    case False
    with Cons sp show ?thesis by simp
  qed
qed

lemma trim_Nil_iff: "trim s = [] \<longleftrightarrow> list_all isWhiteSpace s"
proof
  assume "trim s = []"
  then have all: "\<forall>x \<in> set (dropWhile isWhiteSpace s). isWhiteSpace x"
    by (simp add: trim_def)
  have "dropWhile isWhiteSpace s = []"
  proof (rule ccontr)
    assume ne: "dropWhile isWhiteSpace s \<noteq> []"
    then have "\<not> isWhiteSpace (hd (dropWhile isWhiteSpace s))"
      by (rule hd_dropWhile)
    moreover from ne have "hd (dropWhile isWhiteSpace s) \<in> set (dropWhile isWhiteSpace s)"
      by simp
    ultimately show False using all by blast
  qed
  then show "list_all isWhiteSpace s"
    by (simp add: list_all_iff)
next
  assume "list_all isWhiteSpace s"
  then have d: "dropWhile isWhiteSpace s = []"
    by (simp add: list_all_iff)
  show "trim s = []" unfolding trim_def d by simp
qed

lemma ws_not_z: "isWhiteSpace c \<Longrightarrow> toLowerChar c \<noteq> CHR ''z''"
  by (auto simp: isWhiteSpace_def toLowerChar_def)

lemma ws_not_h: "isWhiteSpace c \<Longrightarrow> toLowerChar c \<noteq> CHR ''h''"
  by (auto simp: isWhiteSpace_def toLowerChar_def)

lemma sublist_dropWhile_front:
  assumes "\<And>c. P c \<Longrightarrow> f c \<noteq> a"
  shows "sublist [a, b] (map f (dropWhile P s)) = sublist [a, b] (map f s)"
  using assms by (induction s) (auto simp: sublist_Cons_right)

lemma zh_trim: "sublist ''zh'' (toLowerCase (trim s)) = sublist ''zh'' (toLowerCase s)"
proof -
  let ?d = "dropWhile isWhiteSpace s"
  have "sublist ''zh'' (toLowerCase (trim s))
        = sublist (rev ''zh'') (map toLowerChar (dropWhile isWhiteSpace (rev ?d)))"
    unfolding trim_def toLowerCase_def rev_map sublist_rev_right [symmetric] by simp
  also have "\<dots> = sublist (rev ''zh'') (map toLowerChar (rev ?d))"
    using sublist_dropWhile_front [of isWhiteSpace toLowerChar "CHR ''h''" "CHR ''z''" "rev ?d"] ws_not_h
    by simp
  also have "\<dots> = sublist ''zh'' (map toLowerChar ?d)"
    unfolding rev_map [symmetric] sublist_rev_right by simp
  also have "\<dots> = sublist ''zh'' (map toLowerChar s)"
    using sublist_dropWhile_front [of isWhiteSpace toLowerChar "CHR ''z''" "CHR ''h''" s] ws_not_z
    by simp
  finally show ?thesis by (simp add: toLowerCase_def)
qed

section \<open>Facts about the decoder\<close>

lemma first_chunk_split:
  "hd (split_str CHR 0x0A t) = first_line t"
  "join_str CHR 0x0A (tl (split_str CHR 0x0A t)) = after_first_newline t"
  by (simp_all add: hd_split_str join_tl_split_str first_line_def after_first_newline_def)

lemma on_chunk_None: "on_chunk None g = (g, None)"
  by (simp add: on_chunk_def)

lemma on_chunk_empty: "on_chunk (Some []) g = (g, None)"
  by (simp add: on_chunk_def)

lemma on_chunk_first:
  assumes "t \<noteq> []" and "detectedLang g = None"
  shows "on_chunk (Some t) g =
    (let d = (if sublist ''zh'' (toLowerCase (first_line t)) then zh else en);
         ft = fullText g @ after_first_newline t
     in (\<lparr>detectedLang = Some d, fullText = ft\<rparr>,
         Some \<lparr>detectedLanguage = d, translation = ft, isComplete = None\<rparr>))"
  using assms
  by (simp add: on_chunk_def Let_def first_chunk_split includes_str_sublist zh_trim)

lemma on_chunk_later:
  assumes "t \<noteq> []" and "detectedLang g = Some d"
  shows "on_chunk (Some t) g =
    (g\<lparr>fullText := fullText g @ t\<rparr>,
     Some \<lparr>detectedLanguage = d, translation = fullText g @ t, isComplete = None\<rparr>)"
  using assms by (simp add: on_chunk_def Let_def)

lemma fst_for_await_Cons:
  "fst (for_await (c # cs) e g) =
     (case snd (on_chunk c g) of
        None \<Rightarrow> fst (for_await cs e (fst (on_chunk c g)))
      | Some v \<Rightarrow> v # fst (for_await cs e (fst (on_chunk c g))))"
  by (cases "on_chunk c g"; cases "for_await cs e (fst (on_chunk c g))")
     (simp split: option.splits)

declare for_await.simps(3) [simp del]

lemma for_await_end_irrelevant:
  "fst (for_await cs StreamError g) = fst (for_await cs EndOfStream g)"
  by (induction cs arbitrary: g) (simp_all add: fst_for_await_Cons split: option.splits)

lemma for_await_skip_None: "fst (for_await (None # cs) e g) = fst (for_await cs e g)"
  by (simp add: fst_for_await_Cons on_chunk_None)

lemma for_await_skip_empty: "fst (for_await (Some [] # cs) e g) = fst (for_await cs e g)"
  by (simp add: fst_for_await_Cons on_chunk_empty)

lemma for_await_later:
  assumes "t \<noteq> []" and "detectedLang g = Some d"
  shows "fst (for_await (Some t # cs) e g) =
    \<lparr>detectedLanguage = d, translation = fullText g @ t, isComplete = None\<rparr>
      # fst (for_await cs e (g\<lparr>fullText := fullText g @ t\<rparr>))"
  using assms by (simp add: fst_for_await_Cons on_chunk_later)

lemma for_await_first:
  assumes "t \<noteq> []" and "detectedLang g = None"
  shows "fst (for_await (Some t # cs) e g) =
    (let d = (if sublist ''zh'' (toLowerCase (first_line t)) then zh else en);
         ft = fullText g @ after_first_newline t
     in \<lparr>detectedLanguage = d, translation = ft, isComplete = None\<rparr>
          # fst (for_await cs e \<lparr>detectedLang = Some d, fullText = ft\<rparr>))"
  using assms by (simp add: fst_for_await_Cons on_chunk_first Let_def)

lemma for_await_decided:
  assumes "detectedLang g = Some d"
  shows "fst (for_await cs e g) =
    map (\<lambda>b. \<lparr>detectedLanguage = d, translation = b, isComplete = None\<rparr>)
      (accumulate (fullText g) (texts cs))"
  using assms
proof (induction cs arbitrary: g)
  case Nil
  then show ?case by (cases e) simp_all
next
  case (Cons c cs)
  show ?case
  proof (cases c)
    case None
    with Cons show ?thesis by (simp add: for_await_skip_None)
  next
    case (Some t)
    show ?thesis
    proof (cases "t = []")
      case True
      with Some Cons show ?thesis by (simp add: for_await_skip_empty)
    next
      case False
      have "detectedLang (g\<lparr>fullText := fullText g @ t\<rparr>) = Some d"
        using Cons.prems by simp
      from Cons.IH [OF this] False Some Cons.prems show ?thesis
        by (simp add: for_await_later)
    qed
  qed
qed

lemma for_await_no_text:
  "texts cs = [] \<Longrightarrow> fst (for_await cs e g) = []"
proof (induction cs arbitrary: g)
  case Nil
  then show ?case by (cases e) simp_all
next
  case (Cons c cs)
  then show ?case
    by (cases c) (auto simp: for_await_skip_None for_await_skip_empty split: if_splits)
qed

lemma for_await_undecided:
  assumes "detectedLang g = None" and "texts cs = t # ts"
  shows "fst (for_await cs e g) =
    map (\<lambda>b. \<lparr>detectedLanguage = (if sublist ''zh'' (toLowerCase (first_line t)) then zh else en),
               translation = b, isComplete = None\<rparr>)
      ((fullText g @ after_first_newline t) # accumulate (fullText g @ after_first_newline t) ts)"
  using assms
proof (induction cs arbitrary: g)
  case Nil
  then show ?case by simp
next
  case (Cons c cs)
  show ?case
  proof (cases c)
    case None
    with Cons show ?thesis by (simp add: for_await_skip_None)
  next
    case (Some u)
    show ?thesis
    proof (cases "u = []")
      case True
      with Some Cons show ?thesis by (simp add: for_await_skip_empty)
    next
      case False
      with Some Cons.prems have eq: "u = t" "texts cs = ts" by simp_all
      show ?thesis
        using False Some Cons.prems(1) eq
        by (simp add: for_await_first Let_def for_await_decided)
    qed
  qed
qed

lemma yields_stream:
  "trim text \<noteq> [] \<Longrightarrow> yields (translateTextStream text (Stream cs e)) = fst (for_await cs e gen_init)"
  by (simp add: translateTextStream_def try_block_def split: prod.splits sum.splits)

lemma accumulate_growing: "prefix_growing (acc # accumulate acc ts)"
proof (induction ts arbitrary: acc)
  case Nil
  show ?case by simp
next
  case (Cons t ts)
  from Cons [of "acc @ t"] show ?case by simp
qed

lemma accumulate_length: "length (accumulate acc ts) = length ts"
  by (induction ts arbitrary: acc) simp_all

lemma accumulate_last: "last (acc # accumulate acc ts) = acc @ concat ts"
  by (induction ts arbitrary: acc) simp_all

lemma yields_blank: "trim text = [] \<Longrightarrow> yields (translateTextStream text r) = []"
  by (simp add: translateTextStream_def)

lemma yields_rejects: "yields (translateTextStream text Rejects) = []"
  by (simp add: translateTextStream_def try_block_def)

lemma yields_texts:
  assumes "trim text \<noteq> []" and "texts cs = t # ts"
  shows "yields (translateTextStream text (Stream cs e)) =
    map (\<lambda>b. \<lparr>detectedLanguage = (if sublist ''zh'' (toLowerCase (first_line t)) then zh else en),
               translation = b, isComplete = None\<rparr>)
      (after_first_newline t # accumulate (after_first_newline t) ts)"
  using for_await_undecided [of gen_init cs t ts e] assms
  by (simp add: yields_stream gen_init_def)

lemma map_translation_result:
  "map translation (map (\<lambda>b. \<lparr>detectedLanguage = d, translation = b, isComplete = c\<rparr>) bs) = bs"
  by (induction bs) simp_all

section \<open>The claims about the decoder\<close>

text \<open>
  C3. Within one request, the translation texts that the decoder emits grow by
  prefix extension: each emitted text is a prefix of the next one. This holds for
  every input text and every behaviour of the remote service.
\<close>

theorem emitted_texts_prefix_growing:
  "prefix_growing (map translation (yields (translateTextStream text r)))"
proof (cases "trim text = []")
  case True
  then show ?thesis by (simp add: yields_blank)
next
  case False
  show ?thesis
  proof (cases r)
    case Rejects
    then show ?thesis by (simp add: yields_rejects)
  next
    case (Stream cs e)
    show ?thesis
    proof (cases "texts cs")
      case Nil
      with False Stream show ?thesis by (simp add: yields_stream for_await_no_text)
    next
      case (Cons t ts)
      from yields_texts [OF False Cons] Stream show ?thesis
        by (simp only: map_translation_result accumulate_growing)
    qed
  qed
qed

lemma trim_hello: "trim ''hello'' \<noteq> []"
  by (simp add: trim_def isWhiteSpace_def)

text \<open>
  C2 (as stated). The claim says that intermediate results carry
  \<^verbatim>\<open>isComplete = false\<close> and that a final result with \<^verbatim>\<open>isComplete = true\<close> is
  emitted when the stream ends. On a stream of two non-empty chunks that ends
  normally the generator yields two results, and neither has the field.
\<close>

theorem no_completion_flag_counterexample:
  "map isComplete
     (yields (translateTextStream ''hello''
        (Stream [Some ''en\<newline>Bon'', Some ''jour''] EndOfStream)))
   = [None, None]"
  by (simp add: yields_stream trim_hello for_await_first for_await_later gen_init_def Let_def)

text \<open>
  C2 (amended). For every non-blank input text and every stream that ends normally
  after at least one non-empty chunk, the generator yields exactly one result per
  non-empty chunk and nothing when the stream ends: the first result carries the text
  after the first newline of the first non-empty chunk, each later one the buffer
  extended by its chunk, so that the last result carries the whole accumulated
  buffer; no result has the field \<^verbatim>\<open>isComplete\<close>.
\<close>

theorem one_result_per_nonempty_chunk:
  assumes "trim text \<noteq> []" and "texts cs = t # ts"
  shows "map translation (yields (translateTextStream text (Stream cs EndOfStream)))
           = after_first_newline t # accumulate (after_first_newline t) ts
       \<and> length (yields (translateTextStream text (Stream cs EndOfStream))) = length (texts cs)
       \<and> translation (last (yields (translateTextStream text (Stream cs EndOfStream))))
           = after_first_newline t @ concat ts
       \<and> map isComplete (yields (translateTextStream text (Stream cs EndOfStream)))
           = replicate (length (texts cs)) None"
proof -
  let ?ys = "yields (translateTextStream text (Stream cs EndOfStream))"
  let ?bs = "after_first_newline t # accumulate (after_first_newline t) ts"
  note ys = yields_texts [OF assms, of EndOfStream]
  have m: "map translation ?ys = ?bs"
    unfolding ys by (rule map_translation_result)
  have l: "length ?ys = length (texts cs)"
    unfolding ys using assms(2) by (simp add: accumulate_length)
  have "?ys \<noteq> []" unfolding ys by simp
  then have "translation (last ?ys) = last (map translation ?ys)"
    by (simp add: last_map)
  also have "\<dots> = after_first_newline t @ concat ts"
    unfolding m by (rule accumulate_last)
  finally have la: "translation (last ?ys) = after_first_newline t @ concat ts" .
  have c: "map isComplete ?ys = replicate (length (texts cs)) None"
    unfolding ys using assms(2)
    by (simp add: accumulate_length comp_def map_replicate_const)
  from m l la c show ?thesis by blast
qed

theorem one_result_per_nonempty_chunk_witness:
  "trim ''hello'' \<noteq> []
   \<and> texts [Some ''en\<newline>'', None, Some ''Bon'', Some [], Some ''jour''] = [''en\<newline>'', ''Bon'', ''jour'']
   \<and> map translation (yields (translateTextStream ''hello''
        (Stream [Some ''en\<newline>'', None, Some ''Bon'', Some [], Some ''jour''] EndOfStream)))
       = [[], ''Bon'', ''Bonjour'']
   \<and> map isComplete (yields (translateTextStream ''hello''
        (Stream [Some ''en\<newline>'', None, Some ''Bon'', Some [], Some ''jour''] EndOfStream)))
       = [None, None, None]"
proof -
  have t: "texts [Some ''en\<newline>'', None, Some ''Bon'', Some [], Some ''jour''] = [''en\<newline>'', ''Bon'', ''jour'']"
    by simp
  from one_result_per_nonempty_chunk [OF trim_hello t] trim_hello t show ?thesis
    by (simp add: after_first_newline_def)
qed

text \<open>
  C4. For every non-blank input text and every stream, let \<open>t\<close> be the first non-empty
  chunk. Every result the generator yields carries the same detected language:
  \<^verbatim>\<open>zh\<close> if the lower-cased first line of \<open>t\<close> contains \<^verbatim>\<open>zh\<close>, and \<^verbatim>\<open>en\<close>
  otherwise. The first result carries exactly the text of \<open>t\<close> after its first
  newline: the first line is dropped whole.
\<close>

theorem language_from_first_line:
  assumes "trim text \<noteq> []" and "texts cs = t # ts"
  shows "yields (translateTextStream text (Stream cs e)) \<noteq> []
       \<and> list_all (\<lambda>y. detectedLanguage y =
              (if sublist ''zh'' (toLowerCase (first_line t)) then zh else en))
            (yields (translateTextStream text (Stream cs e)))
       \<and> translation (hd (yields (translateTextStream text (Stream cs e))))
            = after_first_newline t"
  unfolding yields_texts [OF assms] by (simp add: list_all_iff)

theorem language_from_first_line_witness:
  "trim ''hello'' \<noteq> []
   \<and> texts [Some [], Some ''The ZH tag\<newline>Bon\<newline>'', Some ''jour''] = [''The ZH tag\<newline>Bon\<newline>'', ''jour'']
   \<and> list_all (\<lambda>y. detectedLanguage y = zh)
        (yields (translateTextStream ''hello''
           (Stream [Some [], Some ''The ZH tag\<newline>Bon\<newline>'', Some ''jour''] StreamError)))
   \<and> translation (hd (yields (translateTextStream ''hello''
           (Stream [Some [], Some ''The ZH tag\<newline>Bon\<newline>'', Some ''jour''] StreamError))))
       = ''Bon\<newline>''"
proof -
  have t: "texts [Some [], Some ''The ZH tag\<newline>Bon\<newline>'', Some ''jour''] = [''The ZH tag\<newline>Bon\<newline>'', ''jour'']"
    by simp
  have z: "sublist ''zh'' (toLowerCase (first_line ''The ZH tag\<newline>Bon\<newline>''))"
    by code_simp
  have a: "after_first_newline ''The ZH tag\<newline>Bon\<newline>'' = ''Bon\<newline>''"
    by code_simp
  from language_from_first_line [OF trim_hello t, of StreamError] trim_hello t show ?thesis
    unfolding a by (simp add: z)
qed

section \<open>Facts about the coordinator\<close>

lemma performTranslation_blank:
  "trim text = [] \<Longrightarrow>
   performTranslation text st =
     st\<lparr>translation_state := None, isTranslating := False,
        published := published st @ [(None, None)]\<rparr>"
  by (simp add: performTranslation_def setTranslation_def setIsTranslating_def)

lemma performTranslation_nonblank_calls:
  "trim text \<noteq> [] \<Longrightarrow> remoteCalls (performTranslation text st) = remoteCalls st @ [text]"
  by (simp add: performTranslation_def start_stream_def setIsTranslating_def Let_def
      split: option.splits)

lemma performTranslation_timers:
  "timers (performTranslation text st) = timers st
   \<and> debounceTimerRef (performTranslation text st) = debounceTimerRef st"
  by (simp add: performTranslation_def start_stream_def setIsTranslating_def setTranslation_def
      Let_def split: option.splits)

section \<open>The claims about the coordinator and the speech output\<close>

text \<open>
  C5. For every text that is empty or consists of white space only, and every state
  of the component, \<^verbatim>\<open>performTranslation\<close> sets the published translation to
  \<^verbatim>\<open>null\<close> and \<^verbatim>\<open>isTranslating\<close> to false and changes nothing else: no remote call
  is issued and no generator is started. The generator itself, called with such a
  text, yields nothing and issues no remote call, whatever the remote service would
  answer.
\<close>

theorem blank_text_clears_without_remote_call:
  assumes "list_all isWhiteSpace text"
  shows "performTranslation text st =
           st\<lparr>translation_state := None, isTranslating := False,
              published := published st @ [(None, None)]\<rparr>
       \<and> translation_state (performTranslation text st) = None
       \<and> isTranslating (performTranslation text st) = False
       \<and> remoteCalls (performTranslation text st) = remoteCalls st
       \<and> requests (performTranslation text st) = requests st
       \<and> yields (translateTextStream text r) = []
       \<and> requested (translateTextStream text r) = []"
proof -
  from assms have b: "trim text = []" by (simp add: trim_Nil_iff)
  show ?thesis
    unfolding performTranslation_blank [OF b]
    using b by (simp add: translateTextStream_def)
qed

theorem blank_text_clears_without_remote_call_witness:
  "list_all isWhiteSpace '' ''
   \<and> translation_state (performTranslation '' '' mounted) = None
   \<and> isTranslating (performTranslation '' '' mounted) = False
   \<and> remoteCalls (performTranslation '' '' mounted) = remoteCalls mounted
   \<and> requests (performTranslation '' '' mounted) = requests mounted
   \<and> yields (translateTextStream '' '' (Stream [Some ''en\<newline>Bon''] EndOfStream)) = []
   \<and> requested (translateTextStream '' '' (Stream [Some ''en\<newline>Bon''] EndOfStream)) = []"
proof -
  have w: "list_all isWhiteSpace '' ''" by (simp add: isWhiteSpace_def)
  from blank_text_clears_without_remote_call
         [OF w, of mounted "Stream [Some ''en\<newline>Bon''] EndOfStream"] w
  show ?thesis by blast
qed

text \<open>
  C10. For every language, side, answer of the remote speech synthesis and state of
  the component, \<^verbatim>\<open>speak\<close> called with the empty text returns the state unchanged:
  neither speaking flag is set, no remote speech-synthesis call is recorded, and
  nothing is given to the local speech synthesis or to the audio element.
\<close>

theorem speak_empty_text_changes_nothing:
  "speak [] l isSource tts st = st"
  by (simp add: speak_def)

lemma step_ChunkArrives_falsy:
  "c = None \<or> c = Some [] \<Longrightarrow> step (ChunkArrives i c) st = st"
  by (auto simp: on_chunk_None on_chunk_empty in_phase_def)

text \<open>
  C7. For every input text and every behaviour of the remote service the generator
  returns normally: a failure of the remote call or of the stream is caught inside
  it. A call that throws yields nothing, and a stream that fails yields exactly what
  the same chunks yield when the stream ends normally, so no result stands for the
  error. In the component, for every state and request, the failure of the awaited
  call or of the stream being consumed leaves the published translation and the
  sequence of published values as they were, writes one line to the console, ends
  the request and sets \<^verbatim>\<open>isTranslating\<close> to false.
\<close>

theorem remote_failure_is_absorbed:
  "completion (translateTextStream text r) = Inr ()
   \<and> yields (translateTextStream text Rejects) = []
   \<and> yields (translateTextStream text (Stream cs StreamError))
       = yields (translateTextStream text (Stream cs EndOfStream))
   \<and> (in_phase i AwaitingCall st \<longrightarrow>
        translation_state (step (CallRejects i) st) = translation_state st
        \<and> published (step (CallRejects i) st) = published st
        \<and> console (step (CallRejects i) st) = Suc (console st)
        \<and> isTranslating (step (CallRejects i) st) = False
        \<and> in_phase i Done (step (CallRejects i) st))
   \<and> (in_phase j Streaming st \<longrightarrow>
        translation_state (step (StreamFails j) st) = translation_state st
        \<and> published (step (StreamFails j) st) = published st
        \<and> console (step (StreamFails j) st) = Suc (console st)
        \<and> isTranslating (step (StreamFails j) st) = False
        \<and> in_phase j Done (step (StreamFails j) st))"
proof -
  have a: "completion (translateTextStream text r) = Inr ()"
    by (simp add: translateTextStream_def split: prod.splits sum.splits)
  have b: "yields (translateTextStream text (Stream cs StreamError))
       = yields (translateTextStream text (Stream cs EndOfStream))"
    by (cases "trim text = []") (simp_all add: yields_blank yields_stream for_await_end_irrelevant)
  have c: "in_phase i AwaitingCall st \<longrightarrow>
        translation_state (step (CallRejects i) st) = translation_state st
        \<and> published (step (CallRejects i) st) = published st
        \<and> console (step (CallRejects i) st) = Suc (console st)
        \<and> isTranslating (step (CallRejects i) st) = False
        \<and> in_phase i Done (step (CallRejects i) st)"
    by (simp add: in_phase_def setIsTranslating_def console_error_def set_phase_def)
  have d: "in_phase j Streaming st \<longrightarrow>
        translation_state (step (StreamFails j) st) = translation_state st
        \<and> published (step (StreamFails j) st) = published st
        \<and> console (step (StreamFails j) st) = Suc (console st)
        \<and> isTranslating (step (StreamFails j) st) = False
        \<and> in_phase j Done (step (StreamFails j) st)"
    by (simp add: in_phase_def setIsTranslating_def console_error_def set_phase_def)
  from a b c d yields_rejects show ?thesis by blast
qed

theorem remote_failure_is_absorbed_witness:
  "in_phase 1 AwaitingCall (run (take 6 superseding_scenario) mounted)
   \<and> in_phase 0 Streaming (run (take 6 superseding_scenario) mounted)
   \<and> translation_state (step (CallRejects 1) (run (take 6 superseding_scenario) mounted))
       = translation_state (run (take 6 superseding_scenario) mounted)
   \<and> published (step (CallRejects 1) (run (take 6 superseding_scenario) mounted))
       = published (run (take 6 superseding_scenario) mounted)
   \<and> translation_state (step (StreamFails 0) (run (take 6 superseding_scenario) mounted))
       = translation_state (run (take 6 superseding_scenario) mounted)
   \<and> published (step (StreamFails 0) (run (take 6 superseding_scenario) mounted))
       = published (run (take 6 superseding_scenario) mounted)"
proof -
  have p: "in_phase 1 AwaitingCall (run (take 6 superseding_scenario) mounted)"
    by code_simp
  have q: "in_phase 0 Streaming (run (take 6 superseding_scenario) mounted)"
    by code_simp
  from remote_failure_is_absorbed
         [of "''a''" Rejects "[]" 1 "run (take 6 superseding_scenario) mounted" 0] p q
  show ?thesis by blast
qed

text \<open>
  C1 (the code at a failing input). In the superseding scenario the request for
  \<^verbatim>\<open>a\<close> has been aborted (its controller's flag is set) and the request for \<^verbatim>\<open>ab\<close>
  has published \<^verbatim>\<open>New\<close>. When the next chunk of the aborted request arrives, its
  result is published all the same and replaces the newer request's output.
\<close>

theorem superseded_request_still_publishes:
  "controllers (run superseding_scenario mounted) = [True, False]
   \<and> abortControllerRef (run superseding_scenario mounted) = Some 1
   \<and> translation_state (run superseding_scenario mounted)
       = Some \<lparr>detectedLanguage = en, translation = ''New'', isComplete = None\<rparr>
   \<and> translation_state (step (ChunkArrives 0 (Some ''er'')) (run superseding_scenario mounted))
       = Some \<lparr>detectedLanguage = en, translation = ''Older'', isComplete = None\<rparr>
   \<and> map fst (published (step (ChunkArrives 0 (Some ''er'')) (run superseding_scenario mounted)))
       = [None, Some 0, Some 1, Some 0]"
  by code_simp

text \<open>
  C9 (as stated). The claim says that when a stream ends before any non-empty chunk
  the published state reverts to no translation. In the scenario below the second
  request's stream delivers an empty chunk and ends normally; both requests are
  finished, and the published translation is still the first request's result.
\<close>

theorem empty_stream_keeps_previous_result_counterexample:
  "map phase (requests (run empty_stream_scenario mounted)) = [Done, Done]
   \<and> translation_state (run empty_stream_scenario mounted)
       = Some \<lparr>detectedLanguage = en, translation = ''Salut'', isComplete = None\<rparr>
   \<and> translation_state (run empty_stream_scenario mounted) \<noteq> None"
  by code_simp

text \<open>
  C9 (amended). For every stream without a non-empty chunk, however it ends, the
  generator yields nothing. In the component, a chunk whose text is missing or empty
  changes nothing at all, and the normal end of a stream being consumed leaves the
  published translation and the sequence of published values as they were (a
  previous result stays), ends the request and sets \<^verbatim>\<open>isTranslating\<close> to false.
\<close>

theorem empty_stream_yields_nothing_and_keeps_state:
  "(texts cs = [] \<longrightarrow> yields (translateTextStream text (Stream cs e)) = [])
   \<and> (c = None \<or> c = Some [] \<longrightarrow> step (ChunkArrives i c) st = st)
   \<and> (in_phase i Streaming st \<longrightarrow>
        translation_state (step (StreamEnds i) st) = translation_state st
        \<and> published (step (StreamEnds i) st) = published st
        \<and> console (step (StreamEnds i) st) = console st
        \<and> isTranslating (step (StreamEnds i) st) = False
        \<and> in_phase i Done (step (StreamEnds i) st))"
proof -
  have a: "texts cs = [] \<longrightarrow> yields (translateTextStream text (Stream cs e)) = []"
    by (cases "trim text = []") (simp_all add: yields_blank yields_stream for_await_no_text)
  have b: "c = None \<or> c = Some [] \<longrightarrow> step (ChunkArrives i c) st = st"
    using step_ChunkArrives_falsy by blast
  have d: "in_phase i Streaming st \<longrightarrow>
        translation_state (step (StreamEnds i) st) = translation_state st
        \<and> published (step (StreamEnds i) st) = published st
        \<and> console (step (StreamEnds i) st) = console st
        \<and> isTranslating (step (StreamEnds i) st) = False
        \<and> in_phase i Done (step (StreamEnds i) st)"
    by (simp add: in_phase_def setIsTranslating_def set_phase_def)
  from a b d show ?thesis by blast
qed

theorem empty_stream_yields_nothing_and_keeps_state_witness:
  "texts [Some [], None] = []
   \<and> in_phase 1 Streaming (run (take 8 empty_stream_scenario) mounted)
   \<and> yields (translateTextStream ''hip'' (Stream [Some [], None] EndOfStream)) = []
   \<and> step (ChunkArrives 1 (Some [])) (run (take 8 empty_stream_scenario) mounted)
       = run (take 8 empty_stream_scenario) mounted
   \<and> translation_state (step (StreamEnds 1) (run (take 8 empty_stream_scenario) mounted))
       = translation_state (run (take 8 empty_stream_scenario) mounted)
   \<and> published (step (StreamEnds 1) (run (take 8 empty_stream_scenario) mounted))
       = published (run (take 8 empty_stream_scenario) mounted)"
proof -
  have t: "texts [Some [], None] = []" by simp
  have p: "in_phase 1 Streaming (run (take 8 empty_stream_scenario) mounted)"
    by code_simp
  from empty_stream_yields_nothing_and_keeps_state
         [of "[Some [], None]" "''hip''" EndOfStream "Some []" 1
             "run (take 8 empty_stream_scenario) mounted"] t p
  show ?thesis by blast
qed

text \<open>
  C8 (as stated). In the scenario the claim expects three published results, the
  first with the text \<^verbatim>\<open>Bon\<close> and the last one marked complete. The values given to
  \<^verbatim>\<open>setTranslation\<close> are: \<^verbatim>\<open>null\<close> at the first render, then three results of
  request 0, the first with the empty text and none with a completion flag.
\<close>

theorem hello_scenario_counterexample:
  "map (map_option translation \<circ> snd) (published (run hello_scenario mounted))
     = [None, Some [], Some ''Bon'', Some ''Bonjour'']
   \<and> map (map_option isComplete \<circ> snd) (published (run hello_scenario mounted))
     = [None, Some None, Some None, Some None]"
  by code_simp

text \<open>
  C8 (amended). For the input \<^verbatim>\<open>hello\<close> the timeout is set with a delay of 400
  milliseconds, and when the stream delivers the chunks \<^verbatim>\<open>en\<close> with a newline,
  \<^verbatim>\<open>Bon\<close> and \<^verbatim>\<open>jour\<close> and ends, the results published are, in order, \<^verbatim>\<open>en\<close> with the
  empty text, \<^verbatim>\<open>en\<close> with \<^verbatim>\<open>Bon\<close>, and \<^verbatim>\<open>en\<close> with \<^verbatim>\<open>Bonjour\<close>; none is marked
  complete, nothing is published when the stream ends, and one remote call is made.
\<close>

theorem hello_scenario_published_results:
  "timers (run (take 1 hello_scenario) mounted) = [(1, 400, ''hello'')]
   \<and> published mounted = [(None, None)]
   \<and> published (run hello_scenario mounted)
     = [(None, None),
        (Some 0, Some \<lparr>detectedLanguage = en, translation = [], isComplete = None\<rparr>),
        (Some 0, Some \<lparr>detectedLanguage = en, translation = ''Bon'', isComplete = None\<rparr>),
        (Some 0, Some \<lparr>detectedLanguage = en, translation = ''Bonjour'', isComplete = None\<rparr>)]
   \<and> published (run (butlast hello_scenario) mounted) = published (run hello_scenario mounted)
   \<and> remoteCalls (run hello_scenario mounted) = [''hello'']
   \<and> isTranslating (run hello_scenario mounted) = False"
  by code_simp

section \<open>Facts about the debouncer\<close>

lemma one_timer_cleanup:
  "one_timer st \<Longrightarrow> timers (effect_cleanup (st\<lparr>input := s\<rparr>)) = []"
  by (auto simp: one_timer_def effect_cleanup_def clearTimeout_def
      split: list.splits option.splits)

lemma effect_cleanup_fields:
  "input (effect_cleanup st) = input st"
  "debounceTimerRef (effect_cleanup st) = debounceTimerRef st"
  "nextTimer (effect_cleanup st) = nextTimer st"
  by (simp_all add: effect_cleanup_def clearTimeout_def split: option.splits)

lemma effect_body_no_timer:
  assumes "timers st = []"
  shows "timers (effect_body st) =
           (if input st = [] then []
            else [(nextTimer st, if length (input st) < 5 then 200 else 400, input st)])"
    and "input st \<noteq> [] \<Longrightarrow> debounceTimerRef (effect_body st) = Some (nextTimer st)"
  using assms
  by (simp_all add: effect_body_def clearTimeout_def setTimeout_def setTranslation_def Let_def
      split: option.splits)

lemma input_changed_timers:
  assumes "one_timer st"
  shows "timers (input_changed s st) =
           (if s = [] then [] else [(nextTimer st, if length s < 5 then 200 else 400, s)])"
    and "s \<noteq> [] \<Longrightarrow> debounceTimerRef (input_changed s st) = Some (nextTimer st)"
proof -
  let ?c = "effect_cleanup (st\<lparr>input := s\<rparr>)"
  have t: "timers ?c = []" using assms by (rule one_timer_cleanup)
  have i: "input ?c = s" "nextTimer ?c = nextTimer st"
    by (simp_all add: effect_cleanup_fields)
  show "timers (input_changed s st) =
           (if s = [] then [] else [(nextTimer st, if length s < 5 then 200 else 400, s)])"
    unfolding input_changed_def effect_body_no_timer(1) [OF t] i by simp
  show "debounceTimerRef (input_changed s st) = Some (nextTimer st)" if "s \<noteq> []"
    unfolding input_changed_def using effect_body_no_timer(2) [OF t] that i by simp
qed

lemma one_timer_input_changed: "one_timer st \<Longrightarrow> one_timer (input_changed s st)"
  using input_changed_timers [of st s] by (cases "s = []") (simp_all add: one_timer_def)

lemma one_timer_fires:
  assumes "one_timer st"
  shows "one_timer (step (TimerFires t) st)"
proof (cases "timers st")
  case Nil
  with assms show ?thesis by simp
next
  case (Cons a rest)
  with assms obtain i d x where ts: "timers st = [(i, d, x)]" and r: "debounceTimerRef st = Some i"
    by (cases a; cases rest) (auto simp: one_timer_def)
  show ?thesis
  proof (cases "i = t")
    case True
    have "timers (clearTimeout t st) = []"
      using ts True by (simp add: clearTimeout_def)
    then have "one_timer (performTranslation x (clearTimeout t st))"
      by (simp add: one_timer_def performTranslation_timers)
    with ts True show ?thesis by simp
  next
    case False
    with ts assms show ?thesis by simp
  qed
qed

lemma step_remote_timers:
  "timers (step (CallResolves i) st) = timers st \<and> debounceTimerRef (step (CallResolves i) st) = debounceTimerRef st"
  "timers (step (CallRejects i) st) = timers st \<and> debounceTimerRef (step (CallRejects i) st) = debounceTimerRef st"
  "timers (step (ChunkArrives i c) st) = timers st \<and> debounceTimerRef (step (ChunkArrives i c) st) = debounceTimerRef st"
  "timers (step (StreamEnds i) st) = timers st \<and> debounceTimerRef (step (StreamEnds i) st) = debounceTimerRef st"
  "timers (step (StreamFails i) st) = timers st \<and> debounceTimerRef (step (StreamFails i) st) = debounceTimerRef st"
  by (simp_all add: set_phase_def setIsTranslating_def console_error_def setTranslation_def
      Let_def split: prod.splits option.splits)

lemma one_timer_step: "one_timer st \<Longrightarrow> one_timer (step e st)"
proof (cases e)
  case (InputChange s)
  assume "one_timer st"
  with InputChange show ?thesis by (simp add: one_timer_input_changed)
next
  case (TimerFires t)
  assume "one_timer st"
  with TimerFires show ?thesis by (simp only: one_timer_fires)
qed (simp_all only: one_timer_def step_remote_timers)

lemma one_timer_run: "one_timer st \<Longrightarrow> one_timer (run es st)"
  by (induction es arbitrary: st) (simp_all add: one_timer_step)

lemma one_timer_mounted: "one_timer mounted"
  by (simp add: one_timer_def mounted_def effect_body_def app_init_def setTranslation_def)

lemma one_timer_length: "one_timer st \<Longrightarrow> length (timers st) \<le> 1"
  by (auto simp: one_timer_def split: list.splits)

text \<open>
  C6. In every state the component reaches from its first render, at most one
  timeout is pending. When the input changes to a non-empty text, the pending timeout
  (if any) is cancelled and exactly one timeout is pending afterwards: a new one, held
  by \<^verbatim>\<open>debounceTimerRef\<close>, with a delay of 200 milliseconds if the text is shorter than
  5 and of 400 milliseconds otherwise, and when it fires it calls
  \<^verbatim>\<open>performTranslation\<close> with that text.
\<close>

theorem debounce_delay_and_single_timer:
  "length (timers (run es mounted)) \<le> 1
   \<and> (s \<noteq> [] \<and> s \<noteq> input (run es mounted) \<longrightarrow>
        timers (step (InputChange s) (run es mounted))
          = [(nextTimer (run es mounted), if length s < 5 then 200 else 400, s)]
        \<and> debounceTimerRef (step (InputChange s) (run es mounted))
          = Some (nextTimer (run es mounted))
        \<and> step (TimerFires (nextTimer (run es mounted))) (step (InputChange s) (run es mounted))
          = performTranslation s
              ((step (InputChange s) (run es mounted))\<lparr>timers := []\<rparr>))"
proof -
  let ?st = "run es mounted"
  have inv: "one_timer ?st" by (rule one_timer_run [OF one_timer_mounted])
  have a: "length (timers ?st) \<le> 1" using inv by (rule one_timer_length)
  have b: "timers (step (InputChange s) ?st)
          = [(nextTimer ?st, if length s < 5 then 200 else 400, s)]
        \<and> debounceTimerRef (step (InputChange s) ?st) = Some (nextTimer ?st)
        \<and> step (TimerFires (nextTimer ?st)) (step (InputChange s) ?st)
          = performTranslation s ((step (InputChange s) ?st)\<lparr>timers := []\<rparr>)"
    if ne: "s \<noteq> []" and ch: "s \<noteq> input ?st"
  proof -
    have st: "step (InputChange s) ?st = input_changed s ?st" using ch by simp
    have t: "timers (input_changed s ?st)
          = [(nextTimer ?st, if length s < 5 then 200 else 400, s)]"
      using input_changed_timers(1) [OF inv, of s] ne by simp
    have r: "debounceTimerRef (input_changed s ?st) = Some (nextTimer ?st)"
      using input_changed_timers(2) [OF inv ne] .
    have f: "step (TimerFires (nextTimer ?st)) (input_changed s ?st)
          = performTranslation s ((input_changed s ?st)\<lparr>timers := []\<rparr>)"
      by (simp add: t clearTimeout_def)
    from t r f show ?thesis unfolding st by blast
  qed
  from a b show ?thesis by blast
qed

theorem debounce_delay_and_single_timer_witness:
  "''hello'' \<noteq> [] \<and> ''hello'' \<noteq> input (run [InputChange ''hell''] mounted)
   \<and> timers (run [InputChange ''hell''] mounted) = [(1, 200, ''hell'')]
   \<and> nextTimer (run [InputChange ''hell''] mounted) = 2
   \<and> timers (step (InputChange ''hello'') (run [InputChange ''hell''] mounted))
       = [(2, 400, ''hello'')]"
proof -
  have h: "''hello'' \<noteq> input (run [InputChange ''hell''] mounted)" by code_simp
  have t: "timers (run [InputChange ''hell''] mounted) = [(1, 200, ''hell'')]" by code_simp
  have n: "nextTimer (run [InputChange ''hell''] mounted) = 2" by code_simp
  from debounce_delay_and_single_timer [of "[InputChange ''hell'']" "''hello''"] h t n
  show ?thesis by simp
qed

section \<open>The component publishes what the generator yields\<close>

lemma run_append: "run (es @ fs) st = run fs (run es st)"
  by (induction es arbitrary: st) simp_all

lemma step_ChunkArrives_streaming:
  assumes "in_phase i Streaming st"
  shows "in_phase i Streaming (step (ChunkArrives i c) st)"
    and "locals (requests (step (ChunkArrives i c) st) ! i) = fst (on_chunk c (locals (requests st ! i)))"
    and "published (step (ChunkArrives i c) st) =
           published st @ (case snd (on_chunk c (locals (requests st ! i))) of
                             None \<Rightarrow> [] | Some v \<Rightarrow> [(Some i, Some v)])"
  using assms
  by (simp_all add: in_phase_def setTranslation_def Let_def split: prod.splits option.splits)

lemma run_chunks:
  assumes "in_phase i Streaming st"
  shows "in_phase i Streaming (run (map (ChunkArrives i) cs) st)
       \<and> published (run (map (ChunkArrives i) cs) st) =
           published st @ map (\<lambda>y. (Some i, Some y)) (fst (for_await cs e (locals (requests st ! i))))"
  using assms
proof (induction cs arbitrary: st)
  case Nil
  then show ?case by (cases e) simp_all
next
  case (Cons c cs)
  note s = step_ChunkArrives_streaming [OF Cons.prems, of c]
  from Cons.IH [OF s(1)] show ?case
    unfolding s(2) s(3) by (simp add: fst_for_await_Cons split: option.splits)
qed

lemma performTranslation_starts:
  assumes "trim text \<noteq> []"
  shows "in_phase (length (requests st)) AwaitingCall (performTranslation text st)"
    and "locals (requests (performTranslation text st) ! length (requests st)) = gen_init"
    and "published (performTranslation text st) = published st"
  using assms
  by (simp_all add: performTranslation_def start_stream_def setIsTranslating_def in_phase_def
      Let_def nth_append split: option.splits)

lemma step_CallResolves_awaiting:
  assumes "in_phase i AwaitingCall st"
  shows "in_phase i Streaming (step (CallResolves i) st)"
    and "locals (requests (step (CallResolves i) st) ! i) = locals (requests st ! i)"
    and "published (step (CallResolves i) st) = published st"
  using assms by (simp_all add: in_phase_def set_phase_def)

lemma step_end_published:
  "published (step (StreamEnds i) st) = published st"
  "published (step (StreamFails i) st) = published st"
  "published (step (CallRejects i) st) = published st"
  by (simp_all add: set_phase_def setIsTranslating_def console_error_def)

lemma published_is_yields:
  assumes "trim text \<noteq> []"
  shows "published (run (events_of (length (requests st)) r) (performTranslation text st)) =
           published st @ map (\<lambda>y. (Some (length (requests st)), Some y))
                             (yields (translateTextStream text r))"
proof (cases r)
  case Rejects
  then show ?thesis
    using assms
    by (simp add: events_of_def step_end_published yields_rejects
        performTranslation_starts(3) del: step.simps)
next
  case (Stream cs e)
  let ?i = "length (requests st)"
  let ?st0 = "performTranslation text st"
  let ?st1 = "step (CallResolves ?i) ?st0"
  note p = performTranslation_starts [OF assms, of st]
  note c = step_CallResolves_awaiting [OF p(1)]
  from run_chunks [OF c(1), of cs e]
  have "published (run (map (ChunkArrives ?i) cs) ?st1) =
          published st @ map (\<lambda>y. (Some ?i, Some y)) (fst (for_await cs e gen_init))"
    unfolding c(2) c(3) p(2) p(3) by simp
  then show ?thesis
    unfolding Stream events_of_def yields_stream [OF assms]
    by (cases e) (simp_all add: run_append step_end_published del: step.simps)
qed

end
